theory Spec2Isabelle
  imports Complex_Main
begin

section \<open>The FileFlows provider (custom\_libs/subliminal\_patch/providers/fileflows.py)\<close>

subsection \<open>Data\<close>

text \<open>
  Python values are given the types the provider uses them at: URLs, keys, identifiers
  and language codes are strings; the time-out is an integer; an argument that may be
  \<^verbatim>\<open>None\<close> is an \<open>option\<close>. Times (\<^verbatim>\<open>time.time()\<close>, the poll interval) are Python floats;
  they are modelled as rationals. Every interval the poller computes (10, 15, 22.5, 33.75,
  50.625, 75.9375, 60, 90) is a dyadic rational that a double represents exactly, so the
  interval arithmetic of the model is the arithmetic of the code.
\<close>

type_synonym language = string
type_synonym bytes = "char list"

text \<open>A decoded JSON object: the keys with their (string) values.\<close>

type_synonym json = "(string \<times> string) list"

datatype py_error =
    ConfigurationError string
  | AttributeError
  | OSError
  | SyntaxError
  | ValueError

datatype http_method = GET | POST

record http_request =
  verb :: http_method
  url :: string
  headers :: "(string \<times> string) list"
  data :: "json option"
  req_timeout :: int

text \<open>
  What a call of \<^verbatim>\<open>session.get\<close> / \<^verbatim>\<open>session.post\<close> gives: a \<^verbatim>\<open>RequestException\<close>
  (the endpoint cannot be reached, the request timed out, ...) or a response with its status
  code and its decoded JSON body.
\<close>

datatype http_reply =
    RequestException
  | Response (status_code: nat) (body: json)

text \<open>
  The world outside the provider object: the wall clock, the arguments of every
  \<^verbatim>\<open>time.sleep\<close> call so far, every HTTP request sent so far (oldest first), and the level
  of the module's logger.
\<close>

record world =
  now :: rat
  slept :: "rat list"
  sent :: "http_request list"
  level :: int

text \<open>
  What the code does not determine is a parameter: which upper-case names the \<^verbatim>\<open>logging\<close>
  module has and their values, which paths exist, what the remote service answers to the
  \<open>i\<close>-th request and how long that request takes.
\<close>

record env =
  logging_attr :: "string \<Rightarrow> int option"
  path_exists :: "string \<Rightarrow> bool"
  reply :: "nat \<Rightarrow> http_reply"
  cost :: "nat \<Rightarrow> rat"

record video =
  original_name :: string
  original_path :: string

text \<open>\<^verbatim>\<open>FileFlowsSubtitle\<close>: \<^verbatim>\<open>content\<close> is \<^verbatim>\<open>None\<close> until a download sets it.\<close>

record subtitle =
  sub_language :: language
  sub_video :: video
  sub_workflow_id :: "string option"
  job_id :: "string option"
  content :: "bytes option"

record provider =
  api_url :: string
  api_key :: string
  workflow_id :: string
  timeout :: int
  session :: "(string \<times> string) list option"

subsection \<open>Construction\<close>

text \<open>\<^verbatim>\<open>str.upper\<close> on ASCII letters.\<close>

definition upper_char :: "char \<Rightarrow> char" where
  "upper_char c =
     (let n = (of_char c :: nat) in if 97 \<le> n \<and> n \<le> 122 then char_of (n - 32) else c)"

definition upper :: "string \<Rightarrow> string" where
  "upper s = map upper_char s"

text \<open>
  \<^verbatim>\<open>set_log_level(newLevel)\<close>: \<^verbatim>\<open>newLevel.upper()\<close> raises \<^verbatim>\<open>AttributeError\<close> on \<^verbatim>\<open>None\<close>, and so
  does \<^verbatim>\<open>getattr(logging, ...)\<close> on a name the module does not have.
\<close>

definition set_log_level :: "env \<Rightarrow> string option \<Rightarrow> world \<Rightarrow> (py_error + unit) \<times> world" where
  "set_log_level e newLevel w =
     (case newLevel of
        None \<Rightarrow> (Inl AttributeError, w)
      | Some l \<Rightarrow>
          (case logging_attr e (upper l) of
             None \<Rightarrow> (Inl AttributeError, w)
           | Some v \<Rightarrow> (Inr (), w\<lparr>level := v\<rparr>)))"

text \<open>\<^verbatim>\<open>s.rstrip("/")\<close>.\<close>

definition rstrip :: "char \<Rightarrow> string \<Rightarrow> string" where
  "rstrip c s = rev (dropWhile (\<lambda>x. x = c) (rev s))"

text \<open>Python's \<^verbatim>\<open>not x\<close> for an optional string and for an optional integer.\<close>

definition not_str :: "string option \<Rightarrow> bool" where
  "not_str x = (case x of None \<Rightarrow> True | Some s \<Rightarrow> s = [])"

definition not_int :: "int option \<Rightarrow> bool" where
  "not_int x = (case x of None \<Rightarrow> True | Some n \<Rightarrow> n = 0)"

text \<open>\<^verbatim>\<open>FileFlowsProvider.__init__\<close>.\<close>

definition init ::
  "env \<Rightarrow> string option \<Rightarrow> string option \<Rightarrow> string option \<Rightarrow> int option \<Rightarrow> string option
     \<Rightarrow> world \<Rightarrow> (py_error + provider) \<times> world" where
  "init e api_url_arg api_key_arg workflow_id_arg timeout_arg loglevel w =
     (case set_log_level e loglevel w of
        (Inl err, w1) \<Rightarrow> (Inl err, w1)
      | (Inr _, w1) \<Rightarrow>
          if not_str api_url_arg then
            (Inl (ConfigurationError ''FileFlows API URL must be provided''), w1)
          else if not_str api_key_arg then
            (Inl (ConfigurationError ''FileFlows API Key must be provided''), w1)
          else if not_str workflow_id_arg then
            (Inl (ConfigurationError ''FileFlows Workflow ID must be provided''), w1)
          else if not_int timeout_arg then
            (Inl (ConfigurationError ''FileFlows API timeout must be provided''), w1)
          else
            (Inr \<lparr>api_url = rstrip CHR ''/'' (case api_url_arg of Some u \<Rightarrow> u | None \<Rightarrow> []),
                  api_key = (case api_key_arg of Some k \<Rightarrow> k | None \<Rightarrow> []),
                  workflow_id = (case workflow_id_arg of Some i \<Rightarrow> i | None \<Rightarrow> []),
                  timeout = (case timeout_arg of Some t \<Rightarrow> t | None \<Rightarrow> 0),
                  session = None\<rparr>, w1))"

text \<open>\<^verbatim>\<open>initialize\<close>: a fresh session with the two headers.\<close>

definition initialize :: "provider \<Rightarrow> provider" where
  "initialize p =
     p\<lparr>session := Some [(''Content-Type'', ''application/json''),
                         (''Authorization'', ''Bearer '' @ api_key p)]\<rparr>"

subsection \<open>Requests\<close>

text \<open>
  Sending a request through the session: the request is recorded, the clock advances by
  the time the request takes, and the service's answer to this request comes back.
\<close>

definition send :: "env \<Rightarrow> http_request \<Rightarrow> world \<Rightarrow> http_reply \<times> world" where
  "send e r w =
     (reply e (length (sent w)),
      w\<lparr>now := now w + cost e (length (sent w)), sent := sent w @ [r]\<rparr>)"

text \<open>\<^verbatim>\<open>dict.get(key)\<close>: the value, or \<^verbatim>\<open>None\<close> for a key that is absent.\<close>

definition get :: "json \<Rightarrow> string \<Rightarrow> string option" where
  "get d k = map_of d k"

text \<open>
  \<^verbatim>\<open>submit_file_to_workflow\<close>: \<^verbatim>\<open>None\<close> when the file does not exist, on a
  \<^verbatim>\<open>RequestException\<close> and on a status code other than 200; otherwise the \<^verbatim>\<open>uid\<close> of the
  answer (\<^verbatim>\<open>None\<close> when it has none). Without a session, \<^verbatim>\<open>self.session.post\<close> raises
  \<^verbatim>\<open>AttributeError\<close>.
\<close>

definition submit_file_to_workflow ::
  "env \<Rightarrow> provider \<Rightarrow> string \<Rightarrow> world \<Rightarrow> (py_error + string option) \<times> world" where
  "submit_file_to_workflow e p file_path w =
     (if \<not> path_exists e file_path then (Inr None, w)
      else
        (case session p of
           None \<Rightarrow> (Inl AttributeError, w)
         | Some hs \<Rightarrow>
             (case send e \<lparr>verb = POST, url = api_url p @ ''/api/flow/process'', headers = hs,
                            data = Some [(''filePath'', file_path), (''workflowId'', workflow_id p)],
                            req_timeout = timeout p\<rparr> w of
                (RequestException, w1) \<Rightarrow> (Inr None, w1)
              | (Response c job_data, w1) \<Rightarrow>
                  if c = 200 then (Inr (get job_data ''uid''), w1) else (Inr None, w1))))"

text \<open>
  \<^verbatim>\<open>check_job_status\<close>: the status data of a 200 answer, \<^verbatim>\<open>None\<close> on a
  \<^verbatim>\<open>RequestException\<close> and on any other status code.
\<close>

definition check_job_status ::
  "env \<Rightarrow> provider \<Rightarrow> string \<Rightarrow> world \<Rightarrow> (py_error + json option) \<times> world" where
  "check_job_status e p jid w =
     (case session p of
        None \<Rightarrow> (Inl AttributeError, w)
      | Some hs \<Rightarrow>
          (case send e \<lparr>verb = GET, url = api_url p @ ''/api/flow/status/'' @ jid, headers = hs,
                         data = None, req_timeout = timeout p\<rparr> w of
             (RequestException, w1) \<Rightarrow> (Inr None, w1)
           | (Response c status_data, w1) \<Rightarrow>
               if c = 200 then (Inr (Some status_data), w1) else (Inr None, w1)))"

subsection \<open>The wait loop\<close>

text \<open>\<^verbatim>\<open>time.sleep(d)\<close>: the call is recorded and the clock advances by \<open>d\<close>.\<close>

definition sleep :: "rat \<Rightarrow> world \<Rightarrow> world" where
  "sleep d w = w\<lparr>now := now w + d, slept := slept w @ [d]\<rparr>"

text \<open>Line 173: \<^verbatim>\<open>check_interval = min(check_interval * 1.5, 60)\<close>.\<close>

definition next_interval :: "rat \<Rightarrow> rat" where
  "next_interval check_interval = min (check_interval * (3 / 2)) 60"

text \<open>The interval slept after the \<open>n\<close>-th poll (counted from 0): line 154 starts at 10.\<close>

definition interval_seq :: "nat \<Rightarrow> rat" where
  "interval_seq n = (next_interval ^^ n) 10"

text \<open>\<^verbatim>\<open>not status_data\<close>: \<^verbatim>\<open>None\<close> and the empty dictionary.\<close>

definition not_data :: "json option \<Rightarrow> bool" where
  "not_data d = (case d of None \<Rightarrow> True | Some kvs \<Rightarrow> kvs = [])"

text \<open>
  The \<^verbatim>\<open>while\<close> loop of \<^verbatim>\<open>wait_for_completion\<close>, from the state at its head. Nothing in
  the code bounds the number of iterations (the clock is read from the world), so the loop is
  a partial function: \<open>None\<close> is a loop that never returns.
\<close>

partial_function (option) wait_loop ::
  "env \<Rightarrow> provider \<Rightarrow> string \<Rightarrow> rat \<Rightarrow> rat \<Rightarrow> rat \<Rightarrow> world \<Rightarrow> ((py_error + bool) \<times> world) option"
where
  "wait_loop e p jid max_wait_time start_time check_interval w =
     (if now w - start_time < max_wait_time then
        (case check_job_status e p jid w of
           (Inl err, w1) \<Rightarrow> Some (Inl err, w1)
         | (Inr status_data, w1) \<Rightarrow>
             if not_data status_data then Some (Inr False, w1)
             else
               (let status = get (case status_data of Some d \<Rightarrow> d | None \<Rightarrow> []) ''status'' in
                if status = Some ''Completed'' then Some (Inr True, w1)
                else if status \<in> {Some ''Failed'', Some ''Cancelled''} then Some (Inr False, w1)
                else wait_loop e p jid max_wait_time start_time
                       (next_interval check_interval) (sleep check_interval w1)))
      else Some (Inr False, w))"

declare wait_loop.simps [code]

definition wait_for_completion ::
  "env \<Rightarrow> provider \<Rightarrow> string \<Rightarrow> int \<Rightarrow> world \<Rightarrow> ((py_error + bool) \<times> world) option" where
  "wait_for_completion e p jid max_wait_time w =
     wait_loop e p jid (of_int max_wait_time) (now w) 10 w"

subsection \<open>Listing and downloading\<close>

text \<open>The \<^verbatim>\<open>for\<close> loop of \<^verbatim>\<open>list_subtitles\<close>, with the list built so far.\<close>

fun list_loop :: "provider \<Rightarrow> video \<Rightarrow> language list \<Rightarrow> subtitle list \<Rightarrow> subtitle list" where
  "list_loop p v [] subtitles = subtitles"
| "list_loop p v (l # languages) subtitles =
     list_loop p v languages
       (subtitles @ [\<lparr>sub_language = l, sub_video = v, sub_workflow_id = Some (workflow_id p),
                       job_id = None, content = None\<rparr>])"

definition list_subtitles ::
  "provider \<Rightarrow> video \<Rightarrow> language list \<Rightarrow> world \<Rightarrow> subtitle list \<times> world" where
  "list_subtitles p v languages w = (list_loop p v languages [], w)"

text \<open>
  \<^verbatim>\<open>download_subtitle\<close> returns \<^verbatim>\<open>None\<close> on every path; what it does is what it leaves in
  the subtitle object, which the model returns.
\<close>

definition download_subtitle ::
  "env \<Rightarrow> provider \<Rightarrow> subtitle \<Rightarrow> world \<Rightarrow> ((py_error + subtitle) \<times> world) option" where
  "download_subtitle e p s w =
     (case submit_file_to_workflow e p (original_path (sub_video s)) w of
        (Inl err, w1) \<Rightarrow> Some (Inl err, w1)
      | (Inr j, w1) \<Rightarrow>
          if not_str j then Some (Inr s, w1)
          else
            (let jid = (case j of Some i \<Rightarrow> i | None \<Rightarrow> []); s1 = s\<lparr>job_id := Some jid\<rparr> in
             case wait_for_completion e p jid (timeout p) w1 of
               None \<Rightarrow> None
             | Some (Inl err, w2) \<Rightarrow> Some (Inl err, w2)
             | Some (Inr success, w2) \<Rightarrow>
                 if success then Some (Inr (s1\<lparr>content := Some []\<rparr>), w2)
                 else Some (Inr s1, w2)))"

subsection \<open>Replies and runs of the wait loop\<close>

text \<open>
  A reply after which the loop sleeps and polls again: a 200 answer with non-empty status
  data whose \<^verbatim>\<open>status\<close> is none of \<^verbatim>\<open>Completed\<close>, \<^verbatim>\<open>Failed\<close>, \<^verbatim>\<open>Cancelled\<close>
  (\<^verbatim>\<open>Processing\<close> and \<^verbatim>\<open>Pending\<close> are such).
\<close>

definition still_running :: "http_reply \<Rightarrow> bool" where
  "still_running r =
     (case r of
        RequestException \<Rightarrow> False
      | Response c d \<Rightarrow>
          c = 200 \<and> d \<noteq> [] \<and>
          get d ''status'' \<notin> {Some ''Completed'', Some ''Failed'', Some ''Cancelled''})"

text \<open>
  A status check that fails at the transport level: the request raises, or the answer's
  status code is not 200. \<^verbatim>\<open>check_job_status\<close> returns \<^verbatim>\<open>None\<close> exactly then.
\<close>

definition transport_failure :: "http_reply \<Rightarrow> bool" where
  "transport_failure r = (case r of RequestException \<Rightarrow> True | Response c d \<Rightarrow> c \<noteq> 200)"

text \<open>The world after \<open>n\<close> rounds of status check and sleep, starting with interval \<open>ci\<close>.\<close>

fun after_polls :: "env \<Rightarrow> provider \<Rightarrow> string \<Rightarrow> nat \<Rightarrow> rat \<Rightarrow> world \<Rightarrow> world" where
  "after_polls e p jid 0 ci w = w"
| "after_polls e p jid (Suc n) ci w =
     after_polls e p jid n (next_interval ci) (sleep ci (snd (check_job_status e p jid w)))"

section \<open>The movie pass (bazarr/subtitles/mass\_download/movies.py)\<close>

subsection \<open>Data\<close>

text \<open>
  A language request is the triple the code appends to \<^verbatim>\<open>languages\<close>: the base language and
  the two flags, which the code carries as the strings \<^verbatim>\<open>"True"\<close> and \<^verbatim>\<open>"False"\<close>.
\<close>

type_synonym lang_request = "string \<times> string \<times> string"

text \<open>
  The row selected from \<^verbatim>\<open>TableMovies\<close>; \<^verbatim>\<open>missing_subtitles\<close> is the stored text, or
  \<^verbatim>\<open>None\<close> for a column that is NULL.
\<close>

record movie =
  path :: string
  missing_subtitles :: "string option"
  audio_language :: string
  radarrId :: int
  sceneName :: "string option"
  title :: string
  tags :: string
  monitored :: string
  profileId :: "int option"

text \<open>The only field of a download result that the pass reads is its message.\<close>

record processed =
  message :: string

text \<open>
  What \<^verbatim>\<open>generate_subtitles\<close> yields: \<^verbatim>\<open>None\<close>, a result object, or a tuple whose first
  component is the result.
\<close>

datatype yielded = YNone | YResult processed | YTuple "processed list"

text \<open>The value a call returns: \<^verbatim>\<open>None\<close>, or a list of results.\<close>

datatype retval = PyNone | PyList "processed list"

text \<open>The calls the pass makes to its collaborators, in order.\<close>

datatype event =
    GetProviders
  | ShowProgress int string string int nat
  | GenerateSubtitles string "lang_request list" string string string string "int option" bool
  | StoreSubtitles string string
  | HistoryLog int int processed
  | Notify int string
  | HideProgress int

text \<open>
  The collaborators, as parameters: the database query (with the exclusion clause), the
  path mapping, the file system, \<^verbatim>\<open>ast.literal_eval\<close> on the stored value, the audio profile
  names, the answer of the \<open>i\<close>-th call of \<^verbatim>\<open>get_providers\<close> in the pass, and the values
  \<^verbatim>\<open>generate_subtitles\<close> yields. \<^verbatim>\<open>ast.literal_eval\<close> raises on a value that is no Python
  literal (\<^verbatim>\<open>SyntaxError\<close> on an empty or truncated text, \<^verbatim>\<open>ValueError\<close> on \<^verbatim>\<open>None\<close> and on
  text that is an expression but no literal); a stored text that does decode is a list of
  strings and \<^verbatim>\<open>None\<close>s, as the indexer writes it.
\<close>

record menv =
  first_movie :: "int \<Rightarrow> movie option"
  path_replace_movie :: "string \<Rightarrow> string"
  exists_path :: "string \<Rightarrow> bool"
  literal_eval :: "string option \<Rightarrow> py_error + string option list"
  get_audio_profile_languages :: "string \<Rightarrow> string list"
  get_providers :: "nat \<Rightarrow> string list"
  generate_subtitles ::
    "string \<Rightarrow> lang_request list \<Rightarrow> string \<Rightarrow> string \<Rightarrow> string \<Rightarrow> string \<Rightarrow> int option \<Rightarrow> bool
       \<Rightarrow> yielded list"

subsection \<open>Decoding one entry\<close>

text \<open>\<^verbatim>\<open>s.split(c)\<close> for a one-character separator: never the empty list.\<close>

fun str_split :: "char \<Rightarrow> string \<Rightarrow> string list" where
  "str_split c [] = [[]]"
| "str_split c (x # xs) =
     (if x = c then [] # str_split c xs
      else (case str_split c xs of w # ws \<Rightarrow> (x # w) # ws | [] \<Rightarrow> [[x]]))"

text \<open>\<^verbatim>\<open>s.endswith(suffix)\<close>.\<close>

definition endswith :: "string \<Rightarrow> string \<Rightarrow> bool" where
  "endswith s suffix = (length suffix \<le> length s \<and> drop (length s - length suffix) s = suffix)"

text \<open>Lines 64 to 66: the triple built from one entry that is not \<^verbatim>\<open>None\<close>.\<close>

definition to_request :: "string \<Rightarrow> lang_request" where
  "to_request language =
     (let hi_flag = (if endswith language '':hi'' then ''True'' else ''False'');
          forced_flag = (if endswith language '':forced'' then ''True'' else ''False'')
      in (hd (str_split CHR '':'' language), hi_flag, forced_flag))"

subsection \<open>The pass\<close>

text \<open>
  The \<^verbatim>\<open>for\<close> loop of lines 59 to 69, with the number of \<^verbatim>\<open>get_providers\<close> calls made so
  far and the list built so far; it returns both. An empty provider list leaves the loop.
\<close>

fun resolve_loop ::
  "(nat \<Rightarrow> string list) \<Rightarrow> string option list \<Rightarrow> nat \<Rightarrow> lang_request list
     \<Rightarrow> lang_request list \<times> nat" where
  "resolve_loop gp [] calls languages = (languages, calls)"
| "resolve_loop gp (language # rest) calls languages =
     (let providers_list = gp calls in
      if providers_list \<noteq> [] then
        (case language of
           Some l \<Rightarrow> resolve_loop gp rest (Suc calls) (languages @ [to_request l])
         | None \<Rightarrow> resolve_loop gp rest (Suc calls) languages)
      else (languages, Suc calls))"

text \<open>
  The \<^verbatim>\<open>for\<close> loop of lines 77 to 91: a result that is \<^verbatim>\<open>None\<close> or an empty tuple is
  passed over; a non-empty tuple stands for its first component; each result kept is stored,
  logged and notified.
\<close>

fun process_results :: "movie \<Rightarrow> string \<Rightarrow> int \<Rightarrow> yielded list \<Rightarrow> event list" where
  "process_results m moviePath no [] = []"
| "process_results m moviePath no (YNone # rest) = process_results m moviePath no rest"
| "process_results m moviePath no (YTuple [] # rest) = process_results m moviePath no rest"
| "process_results m moviePath no (YTuple (r # rs) # rest) =
     [StoreSubtitles (path m) moviePath, HistoryLog 1 no r, Notify no (message r)]
       @ process_results m moviePath no rest"
| "process_results m moviePath no (YResult r # rest) =
     [StoreSubtitles (path m) moviePath, HistoryLog 1 no r, Notify no (message r)]
       @ process_results m moviePath no rest"

text \<open>\<^verbatim>\<open>str(x)\<close> for an optional string.\<close>

definition str_opt :: "string option \<Rightarrow> string" where
  "str_opt x = (case x of None \<Rightarrow> ''None'' | Some s \<Rightarrow> s)"

text \<open>Lines 51 to 55: the name of the first audio profile language, or \<^verbatim>\<open>'None'\<close>.\<close>

definition audio_language_of :: "menv \<Rightarrow> movie \<Rightarrow> string" where
  "audio_language_of e m =
     (let audio_language_list = get_audio_profile_languages e (audio_language m) in
      if length audio_language_list > 0 then hd audio_language_list else ''None'')"

text \<open>The call of \<^verbatim>\<open>generate_subtitles\<close> at lines 77 to 84, for a list of requests.\<close>

definition search :: "menv \<Rightarrow> movie \<Rightarrow> string \<Rightarrow> lang_request list \<Rightarrow> yielded list" where
  "search e m moviePath languages =
     generate_subtitles e moviePath languages (audio_language_of e m) (str_opt (sceneName m))
       (title m) ''movie'' (profileId m) True"

text \<open>
  \<^verbatim>\<open>movies_download_subtitles(no)\<close>: what the call gives its caller (an exception, or the
  value returned) and the calls it made. No \<^verbatim>\<open>return\<close> of the function carries a value.
  The stored text is decoded at lines 46, 47 and 59; the first decoding, at line 46, is the one
  that raises when the text does not decode. The progress events carry \<open>no\<close> for the
  identifier \<^verbatim>\<open>movie_search_progress_{no}\<close>.
\<close>

definition movies_download_subtitles :: "menv \<Rightarrow> int \<Rightarrow> (py_error + retval) \<times> event list" where
  "movies_download_subtitles e no =
     (case first_movie e no of
        None \<Rightarrow> (Inr PyNone, [])
      | Some m \<Rightarrow>
          (let moviePath = path_replace_movie e (path m) in
           if \<not> exists_path e moviePath then (Inl OSError, [])
           else
             (case literal_eval e (missing_subtitles m) of
                Inl err \<Rightarrow> (Inl err, [])
              | Inr decoded \<Rightarrow>
                  (let count_movie = (if decoded \<noteq> [] then length decoded else 0);
                       (languages, calls) = resolve_loop (get_providers e) decoded 0 []
                   in (Inr PyNone,
                       replicate calls GetProviders
                       @ [ShowProgress no ''Searching missing subtitles...'' (title m) 0 count_movie,
                          GenerateSubtitles moviePath languages (audio_language_of e m)
                            (str_opt (sceneName m)) (title m) ''movie'' (profileId m) True]
                       @ process_results m moviePath no (search e m moviePath languages)
                       @ [HideProgress no])))))"

subsection \<open>Reading a run\<close>

text \<open>The entries of a decoded list that are not \<^verbatim>\<open>None\<close>, in order.\<close>

fun non_null :: "'a option list \<Rightarrow> 'a list" where
  "non_null [] = []"
| "non_null (None # xs) = non_null xs"
| "non_null (Some x # xs) = x # non_null xs"

text \<open>The results of a yielded sequence that the second loop keeps, in order.\<close>

fun kept :: "yielded list \<Rightarrow> processed list" where
  "kept [] = []"
| "kept (YNone # rest) = kept rest"
| "kept (YTuple [] # rest) = kept rest"
| "kept (YTuple (r # rs) # rest) = r # kept rest"
| "kept (YResult r # rest) = r # kept rest"

text \<open>The results written to the history, the language lists searched, and the registry
  consultations of a run.\<close>

fun history_entries :: "event list \<Rightarrow> processed list" where
  "history_entries [] = []"
| "history_entries (HistoryLog a n r # es) = r # history_entries es"
| "history_entries (ev # es) = history_entries es"

fun searched :: "event list \<Rightarrow> lang_request list list" where
  "searched [] = []"
| "searched (GenerateSubtitles mp ls al sn t k pid c # es) = ls # searched es"
| "searched (ev # es) = searched es"

definition registry_calls :: "event list \<Rightarrow> nat" where
  "registry_calls es = length (filter (\<lambda>ev. ev = GetProviders) es)"

section \<open>Example runs\<close>

text \<open>A provider with a session, and a world in which nothing has happened yet.\<close>

definition ex_provider :: provider where
  "ex_provider =
     initialize \<lparr>api_url = ''http://fileflows:5000'', api_key = ''secret'', workflow_id = ''wf1'',
                 timeout = 3600, session = None\<rparr>"

definition w0 :: world where
  "w0 = \<lparr>now = 0, slept = [], sent = [], level = 20\<rparr>"

definition ex_video :: video where
  "ex_video = \<lparr>original_name = ''a.mkv'', original_path = ''/movies/a.mkv''\<rparr>"

definition ex_subtitle :: subtitle where
  "ex_subtitle = \<lparr>sub_language = ''en'', sub_video = ex_video, sub_workflow_id = Some ''wf1'',
                   job_id = None, content = None\<rparr>"

text \<open>A service whose jobs stay in \<^verbatim>\<open>Processing\<close>; every request takes half a second.\<close>

definition busy_env :: env where
  "busy_env =
     \<lparr>logging_attr = map_of [(''INFO'', 20), (''DEBUG'', 10)],
      path_exists = (\<lambda>f. True),
      reply = (\<lambda>i. Response 200 [(''status'', ''Processing'')]),
      cost = (\<lambda>i. 1 / 2)\<rparr>"

text \<open>A service that answers the first request and cannot be reached afterwards.\<close>

definition down_env :: env where
  "down_env =
     \<lparr>logging_attr = map_of [(''INFO'', 20), (''DEBUG'', 10)],
      path_exists = (\<lambda>f. True),
      reply = (\<lambda>i. if i = 0 then Response 200 [(''status'', ''Processing'')] else RequestException),
      cost = (\<lambda>i. 0)\<rparr>"

text \<open>
  A service that accepts the file as job \<^verbatim>\<open>job1\<close>, reports \<^verbatim>\<open>Processing\<close> once and
  \<^verbatim>\<open>Completed\<close> from then on.
\<close>

definition done_env :: env where
  "done_env =
     \<lparr>logging_attr = map_of [(''INFO'', 20), (''DEBUG'', 10)],
      path_exists = (\<lambda>f. True),
      reply = (\<lambda>i. if i = 0 then Response 200 [(''uid'', ''job1'')]
                     else if i = 1 then Response 200 [(''status'', ''Processing'')]
                     else Response 200 [(''status'', ''Completed'')]),
      cost = (\<lambda>i. 0)\<rparr>"

text \<open>A service whose jobs stay in \<^verbatim>\<open>Processing\<close> and whose every request takes one second.\<close>

definition slow_env :: env where
  "slow_env =
     \<lparr>logging_attr = map_of [(''INFO'', 20), (''DEBUG'', 10)],
      path_exists = (\<lambda>f. True),
      reply = (\<lambda>i. Response 200 [(''status'', ''Processing'')]),
      cost = (\<lambda>i. 1)\<rparr>"

text \<open>Of a run of the wait: the result, the clock at the end and the sleeps made.\<close>

definition timing ::
  "((py_error + bool) \<times> world) option \<Rightarrow> ((py_error + bool) \<times> rat \<times> rat list) option" where
  "timing run = (case run of None \<Rightarrow> None | Some (r, w) \<Rightarrow> Some (r, now w, slept w))"

text \<open>A movie with two missing languages.\<close>

definition ex_movie :: movie where
  "ex_movie =
     \<lparr>path = ''/data/a.mkv'', missing_subtitles = Some ''['en', 'fr:hi']'', audio_language = ''English'',
      radarrId = 7, sceneName = None, title = ''A'', tags = ''[]'', monitored = ''True'',
      profileId = Some 1\<rparr>"

text \<open>
  The decoder on the texts of the examples: the list of the example movie, the empty list,
  and the errors of \<^verbatim>\<open>ast.literal_eval\<close> on \<^verbatim>\<open>None\<close> and on the empty text.
\<close>

definition ex_literal_eval :: "string option \<Rightarrow> py_error + string option list" where
  "ex_literal_eval t =
     (case t of
        None \<Rightarrow> Inl ValueError
      | Some s \<Rightarrow>
          if s = ''['en', 'fr:hi']'' then Inr [Some ''en'', Some ''fr:hi'']
          else if s = ''[]'' then Inr []
          else Inl SyntaxError)"

text \<open>
  Collaborators for which every search succeeds: each request yields one result, whose
  message names the base language. Only the registry and the file system differ below.
\<close>

definition found :: "lang_request \<Rightarrow> yielded" where
  "found r = YResult \<lparr>message = fst r @ '' subtitles downloaded''\<rparr>"

definition ex_menv :: "(nat \<Rightarrow> string list) \<Rightarrow> bool \<Rightarrow> menv" where
  "ex_menv registry on_disk =
     \<lparr>first_movie = (\<lambda>n. if n = 7 then Some ex_movie else None),
      path_replace_movie = (\<lambda>f. ''/mnt'' @ f),
      exists_path = (\<lambda>f. on_disk),
      literal_eval = ex_literal_eval,
      get_audio_profile_languages = (\<lambda>a. [a]),
      get_providers = registry,
      generate_subtitles = (\<lambda>mp ls al sn t k pid c. map found ls)\<rparr>"

text \<open>The registry is empty at the second consultation.\<close>

definition throttled_env :: menv where
  "throttled_env = ex_menv (\<lambda>i. if i = 0 then [''opensubtitles''] else []) True"

text \<open>The registry always has a provider.\<close>

definition open_env :: menv where
  "open_env = ex_menv (\<lambda>i. [''opensubtitles'']) True"

text \<open>The stored text of the movie is empty.\<close>

definition corrupt_env :: menv where
  "corrupt_env =
     (ex_menv (\<lambda>i. [''opensubtitles'']) True)
       \<lparr>first_movie := (\<lambda>n. if n = 7 then Some (ex_movie\<lparr>missing_subtitles := Some []\<rparr>)
                             else None)\<rparr>"

text \<open>The media file is not on disk.\<close>

definition missing_file_env :: menv where
  "missing_file_env = ex_menv (\<lambda>i. [''opensubtitles'']) False"

section \<open>Properties of the FileFlows provider\<close>

subsection \<open>The poll interval\<close>

lemma interval_seq_Suc: "interval_seq (Suc n) = next_interval (interval_seq n)"
  by (simp add: interval_seq_def)

lemma interval_seq_0: "interval_seq 0 = 10"
  by (simp add: interval_seq_def)

lemma interval_seq_range: "10 \<le> interval_seq n \<and> interval_seq n \<le> 60"
  by (induction n) (auto simp: interval_seq_Suc interval_seq_0 next_interval_def)

lemma interval_seq_mono: "interval_seq n \<le> interval_seq (Suc n)"
  using interval_seq_range [of n] by (simp add: interval_seq_Suc next_interval_def)

lemma interval_seq_first:
  "interval_seq 1 = 15" "interval_seq 2 = 45 / 2" "interval_seq 3 = 135 / 4"
  "interval_seq 4 = 405 / 8" "interval_seq 5 = 60"
  by (simp_all add: interval_seq_def next_interval_def eval_nat_numeral)

lemma interval_seq_cap: "interval_seq (n + 5) = 60"
proof (induction n)
  case 0
  show ?case by (simp add: interval_seq_first)
next
  case (Suc n)
  have "interval_seq (Suc n + 5) = next_interval (interval_seq (n + 5))"
    by (simp only: add_Suc interval_seq_Suc)
  with Suc show ?case by (simp add: next_interval_def)
qed

lemma next_interval_lower: "10 \<le> ci \<Longrightarrow> 10 \<le> next_interval ci"
  by (simp add: next_interval_def)

subsection \<open>One status check\<close>

lemma check_job_status_world:
  assumes "session p = Some hs"
  shows "snd (check_job_status e p jid w) =
           w\<lparr>now := now w + cost e (length (sent w)),
              sent := sent w @ [\<lparr>verb = GET, url = api_url p @ ''/api/flow/status/'' @ jid,
                                  headers = hs, data = None, req_timeout = timeout p\<rparr>]\<rparr>"
  using assms by (simp add: check_job_status_def send_def split: http_reply.splits)

lemma check_job_status_slept: "slept (snd (check_job_status e p jid w)) = slept w"
  by (simp add: check_job_status_def send_def split: option.splits http_reply.splits)

lemma check_job_status_transport_failure:
  assumes "session p = Some hs" and "transport_failure (reply e (length (sent w)))"
  shows "fst (check_job_status e p jid w) = Inr None"
  using assms
  by (auto simp: check_job_status_def send_def transport_failure_def split: http_reply.splits)

subsection \<open>The loop, step by step\<close>

lemma wait_loop_exit:
  "\<not> now w - st < mw \<Longrightarrow> wait_loop e p jid mw st ci w = Some (Inr False, w)"
  by (subst wait_loop.simps) simp

lemma wait_loop_continue:
  assumes "session p = Some hs" and "still_running (reply e (length (sent w)))"
    and "now w - st < mw"
  shows "wait_loop e p jid mw st ci w =
           wait_loop e p jid mw st (next_interval ci) (sleep ci (snd (check_job_status e p jid w)))"
  using assms
  by (subst wait_loop.simps)
     (auto simp: check_job_status_def send_def still_running_def not_data_def
           split: http_reply.splits)

lemma wait_loop_transport_failure:
  assumes "session p = Some hs" and "transport_failure (reply e (length (sent w)))"
    and "now w - st < mw"
  shows "wait_loop e p jid mw st ci w = Some (Inr False, snd (check_job_status e p jid w))"
  using assms
  by (subst wait_loop.simps)
     (auto simp: check_job_status_def send_def transport_failure_def not_data_def
           split: http_reply.splits)

lemma now_after_one:
  assumes "session p = Some hs"
  shows "now (sleep ci (snd (check_job_status e p jid w))) = now w + cost e (length (sent w)) + ci"
  by (simp add: sleep_def check_job_status_world [OF assms])

subsection \<open>A job that never finishes\<close>

text \<open>
  With a clock that does not run backwards, the loop leaves after finitely many rounds: every
  round moves the clock by at least the interval slept, and that is at least 10.
\<close>

lemma wait_loop_never_terminal:
  assumes "session p = Some hs" and "\<forall>i. 0 \<le> cost e i" and "\<forall>i. still_running (reply e i)"
    and "10 \<le> ci"
  shows "\<exists>n. wait_loop e p jid mw st ci w = Some (Inr False, after_polls e p jid n ci w)
             \<and> (\<forall>k<n. now (after_polls e p jid k ci w) - st < mw)
             \<and> mw \<le> now (after_polls e p jid n ci w) - st"
  using assms(4)
proof (induction "nat \<lceil>mw - (now w - st)\<rceil>" arbitrary: w ci rule: less_induct)
  case less
  show ?case
  proof (cases "now w - st < mw")
    case False
    then have "wait_loop e p jid mw st ci w = Some (Inr False, after_polls e p jid 0 ci w)"
      by (simp add: wait_loop_exit)
    moreover from False have "mw \<le> now (after_polls e p jid 0 ci w) - st" by simp
    ultimately show ?thesis by blast
  next
    case True
    define w2 where "w2 = sleep ci (snd (check_job_status e p jid w))"
    have now2: "now w2 = now w + cost e (length (sent w)) + ci"
      unfolding w2_def by (rule now_after_one [OF assms(1)])
    have c0: "0 \<le> cost e (length (sent w))" using assms(2) by blast
    have "mw - (now w2 - st) \<le> mw - (now w - st) - 10"
      using now2 c0 less.prems by simp
    then have "\<lceil>mw - (now w2 - st)\<rceil> \<le> \<lceil>mw - (now w - st)\<rceil> - 10"
      by (metis ceiling_mono ceiling_diff_numeral)
    moreover have "0 < \<lceil>mw - (now w - st)\<rceil>" using True by simp
    ultimately have dec: "nat \<lceil>mw - (now w2 - st)\<rceil> < nat \<lceil>mw - (now w - st)\<rceil>"
      by linarith
    have ci2: "10 \<le> next_interval ci" using less.prems by (rule next_interval_lower)
    from less.hyps [OF dec ci2] obtain n where
      n: "wait_loop e p jid mw st (next_interval ci) w2
            = Some (Inr False, after_polls e p jid n (next_interval ci) w2)"
         "\<forall>k<n. now (after_polls e p jid k (next_interval ci) w2) - st < mw"
         "mw \<le> now (after_polls e p jid n (next_interval ci) w2) - st"
      by blast
    have step: "wait_loop e p jid mw st ci w = wait_loop e p jid mw st (next_interval ci) w2"
      unfolding w2_def using assms(1) assms(3) True by (intro wait_loop_continue) auto
    have "\<forall>k<Suc n. now (after_polls e p jid k ci w) - st < mw"
    proof (intro allI impI)
      fix k assume "k < Suc n"
      then show "now (after_polls e p jid k ci w) - st < mw"
        using True n(2) by (cases k) (auto simp: w2_def)
    qed
    moreover have "wait_loop e p jid mw st ci w = Some (Inr False, after_polls e p jid (Suc n) ci w)"
      using step n(1) by (simp add: w2_def)
    moreover have "mw \<le> now (after_polls e p jid (Suc n) ci w) - st"
      using n(3) by (simp add: w2_def)
    ultimately show ?thesis by blast
  qed
qed

lemma after_polls_slept:
  assumes "session p = Some hs"
  shows "slept (after_polls e p jid n (interval_seq k) w) = slept w @ map interval_seq [k..<k + n]"
proof (induction n arbitrary: k w)
  case 0
  show ?case by simp
next
  case (Suc n)
  have "slept (after_polls e p jid (Suc n) (interval_seq k) w)
          = slept (sleep (interval_seq k) (snd (check_job_status e p jid w)))
              @ map interval_seq [Suc k..<Suc k + n]"
    using Suc [of "Suc k"] by (simp add: interval_seq_Suc)
  also have "\<dots> = slept w @ interval_seq k # map interval_seq [Suc k..<Suc k + n]"
    by (simp add: sleep_def check_job_status_world [OF assms])
  also have "\<dots> = slept w @ map interval_seq [k..<k + Suc n]"
    using upt_conv_Cons [of k "k + Suc n"] by simp
  finally show ?case .
qed

lemma after_polls_sent:
  assumes "session p = Some hs"
  shows "length (sent (after_polls e p jid n ci w)) = length (sent w) + n"
proof (induction n arbitrary: ci w)
  case 0
  show ?case by simp
next
  case (Suc n)
  show ?case
    by (simp add: Suc sleep_def check_job_status_world [OF assms])
qed

lemma after_polls_now:
  assumes "session p = Some hs"
  shows "now (after_polls e p jid n (interval_seq k) w)
           = now w + (\<Sum>j<n. interval_seq (k + j)) + (\<Sum>j<n. cost e (length (sent w) + j))"
proof (induction n arbitrary: k w)
  case 0
  show ?case by simp
next
  case (Suc n)
  define w2 where "w2 = sleep (interval_seq k) (snd (check_job_status e p jid w))"
  have w2: "now w2 = now w + cost e (length (sent w)) + interval_seq k"
    "length (sent w2) = Suc (length (sent w))"
    by (simp_all add: w2_def sleep_def check_job_status_world [OF assms])
  have "now (after_polls e p jid (Suc n) (interval_seq k) w)
          = now (after_polls e p jid n (interval_seq (Suc k)) w2)"
    by (simp add: w2_def interval_seq_Suc)
  also have "\<dots> = now w2 + (\<Sum>j<n. interval_seq (Suc k + j))
                       + (\<Sum>j<n. cost e (length (sent w2) + j))"
    by (rule Suc)
  also have "\<dots> = now w + (\<Sum>j<Suc n. interval_seq (k + j))
                       + (\<Sum>j<Suc n. cost e (length (sent w) + j))"
    by (simp add: w2 sum.lessThan_Suc_shift del: sum.lessThan_Suc)
  finally show ?case .
qed

lemma sum_costs_nonneg:
  assumes "\<forall>i. 0 \<le> cost e i"
  shows "0 \<le> (\<Sum>j<n. cost e (m + j))"
  using assms by (simp add: sum_nonneg)

lemma wait_for_completion_never_terminal:
  assumes "session p = Some hs" and "\<forall>i. 0 \<le> cost e i" and "\<forall>i. still_running (reply e i)"
  shows "\<exists>w' n. wait_for_completion e p jid mw w = Some (Inr False, w')
           \<and> slept w' = slept w @ map interval_seq [0..<n]
           \<and> length (sent w') = length (sent w) + n
           \<and> now w' = now w + (\<Sum>j<n. interval_seq j) + (\<Sum>j<n. cost e (length (sent w) + j))
           \<and> (n = 0 \<or> (\<Sum>j<n. interval_seq j) < of_int mw + interval_seq (n - 1))
           \<and> (n = 0 \<or> now w' - now w
                         < of_int mw + interval_seq (n - 1) + cost e (length (sent w) + (n - 1)))
           \<and> (\<Sum>j<n. interval_seq j) \<le> max 0 (of_int mw + 60)"
proof -
  have "(10::rat) \<le> interval_seq 0" by (simp add: interval_seq_0)
  from wait_loop_never_terminal [OF assms this, of jid "of_int mw" "now w" w]
  obtain n where
    n: "wait_loop e p jid (of_int mw) (now w) (interval_seq 0) w
          = Some (Inr False, after_polls e p jid n (interval_seq 0) w)"
       "\<forall>k<n. now (after_polls e p jid k (interval_seq 0) w) - now w < of_int mw"
    by blast
  define w' where "w' = after_polls e p jid n (interval_seq 0) w"
  have r: "wait_for_completion e p jid mw w = Some (Inr False, w')"
    using n(1) by (simp add: wait_for_completion_def w'_def interval_seq_0)
  have s: "slept w' = slept w @ map interval_seq [0..<n]"
    using after_polls_slept [OF assms(1), of e jid n 0 w] by (simp add: w'_def)
  have l: "length (sent w') = length (sent w) + n"
    by (simp add: w'_def after_polls_sent [OF assms(1)])
  have t: "now w' = now w + (\<Sum>j<n. interval_seq j) + (\<Sum>j<n. cost e (length (sent w) + j))"
    using after_polls_now [OF assms(1), of e jid n 0 w] by (simp add: w'_def)
  have b: "(\<Sum>j<n. interval_seq j) < of_int mw + interval_seq (n - 1)
           \<and> now w' - now w < of_int mw + interval_seq (n - 1) + cost e (length (sent w) + (n - 1))"
    if "n \<noteq> 0"
  proof -
    from that obtain m where m: "n = Suc m" by (cases n) auto
    have "now (after_polls e p jid m (interval_seq 0) w) - now w < of_int mw"
      using n(2) m by simp
    then have h: "(\<Sum>j<m. interval_seq j) + (\<Sum>j<m. cost e (length (sent w) + j)) < of_int mw"
      using after_polls_now [OF assms(1), of e jid m 0 w] by simp
    have "0 \<le> (\<Sum>j<m. cost e (length (sent w) + j))"
      by (rule sum_costs_nonneg [OF assms(2)])
    with h have "(\<Sum>j<m. interval_seq j) < of_int mw" by linarith
    then have 1: "(\<Sum>j<n. interval_seq j) < of_int mw + interval_seq (n - 1)"
      by (simp add: m)
    have 2: "now w' - now w < of_int mw + interval_seq (n - 1) + cost e (length (sent w) + (n - 1))"
      using h by (simp add: t m)
    from 1 2 show ?thesis by simp
  qed
  have u: "(\<Sum>j<n. interval_seq j) \<le> max 0 (of_int mw + 60)"
  proof (cases "n = 0")
    case True
    then show ?thesis by simp
  next
    case False
    with b have "(\<Sum>j<n. interval_seq j) < of_int mw + interval_seq (n - 1)" by simp
    moreover have "interval_seq (n - 1) \<le> 60" using interval_seq_range by blast
    ultimately show ?thesis by linarith
  qed
  have b1: "n = 0 \<or> (\<Sum>j<n. interval_seq j) < of_int mw + interval_seq (n - 1)"
    using b by blast
  have b2: "n = 0 \<or> now w' - now w
              < of_int mw + interval_seq (n - 1) + cost e (length (sent w) + (n - 1))"
    using b by blast
  show ?thesis
    by (rule exI [of _ w'], rule exI [of _ n]) (intro conjI r s l t b1 b2 u)
qed

lemma sum_list_upt: "sum_list (map f [0..<n]) = (\<Sum>j<n. f j)"
  by (simp add: interv_sum_list_conv_sum_set_nat atLeast0LessThan)

lemma sum_list_upt_shift: "sum_list (map f [m..<m + n]) = (\<Sum>j<n. f (m + j))"
proof -
  have "sum_list (map f [m..<m + n]) = sum f {m..<m + n}"
    by (simp add: interv_sum_list_conv_sum_set_nat)
  also have "\<dots> = sum (\<lambda>j. f (j + m)) {0..<n}"
    using sum.shift_bounds_nat_ivl [of f 0 m n] by (simp add: add.commute)
  also have "\<dots> = (\<Sum>j<n. f (m + j))"
    by (simp add: atLeast0LessThan add.commute)
  finally show ?thesis .
qed

text \<open>
  C5 as stated fails: the wait blocks its caller in the status checks as well as in the
  sleeps. With a time-out of 137 seconds and a service that takes one second to answer
  \<^verbatim>\<open>Processing\<close>, the loop is entered for the sixth time at 136.875 seconds and returns
  \<^verbatim>\<open>False\<close> at 197.875 seconds, later than the time-out plus the largest poll interval.
\<close>

theorem slow_checks_outlast_bound:
  "timing (wait_for_completion slow_env ex_provider ''job1'' 137 w0)
     = Some (Inr False, 1583 / 8, [10, 15, 45 / 2, 135 / 4, 405 / 8, 60])
   \<and> now w0 = 0
   \<and> \<not> (1583 / 8 \<le> (137 :: rat) + 60)"
  by code_simp

text \<open>
  C5, amended. A job whose status checks always answer with a non-terminal status
  (\<^verbatim>\<open>Processing\<close>, \<^verbatim>\<open>Pending\<close>): \<^verbatim>\<open>wait_for_completion\<close> returns, and it returns \<^verbatim>\<open>False\<close>,
  after some number \<open>n\<close> of polls. The time it spends in \<^verbatim>\<open>time.sleep\<close> is the sum of the \<open>n\<close>
  intervals slept; it is below the time-out plus the last interval slept, hence at most the
  time-out plus 60 (and it is zero when the time-out is not positive). The clock moves by the
  time slept plus the time spent inside the status checks, and the call returns before the
  time-out plus the last interval slept plus the duration of its last status check.
  The clock is assumed not to run backwards during a status check.
\<close>

theorem wait_for_completion_times_out:
  assumes "session p = Some hs" and "\<forall>i. 0 \<le> cost e i" and "\<forall>i. still_running (reply e i)"
  shows "\<exists>w' n. wait_for_completion e p jid max_wait_time w = Some (Inr False, w')
           \<and> slept w' = slept w @ map interval_seq [0..<n]
           \<and> length (sent w') = length (sent w) + n
           \<and> now w' - now w = sum_list (map interval_seq [0..<n])
                                 + sum_list (map (cost e) [length (sent w)..<length (sent w')])
           \<and> (n = 0 \<or> sum_list (map interval_seq [0..<n])
                         < of_int max_wait_time + interval_seq (n - 1))
           \<and> sum_list (map interval_seq [0..<n]) \<le> max 0 (of_int max_wait_time + 60)
           \<and> (n = 0 \<or> now w' - now w
                         < of_int max_wait_time + interval_seq (n - 1)
                           + cost e (length (sent w') - 1))"
proof -
  from wait_for_completion_never_terminal [OF assms, of jid max_wait_time w]
  obtain w' n where
    r: "wait_for_completion e p jid max_wait_time w = Some (Inr False, w')"
    and s: "slept w' = slept w @ map interval_seq [0..<n]"
    and l: "length (sent w') = length (sent w) + n"
    and t: "now w' = now w + (\<Sum>j<n. interval_seq j) + (\<Sum>j<n. cost e (length (sent w) + j))"
    and b1: "n = 0 \<or> (\<Sum>j<n. interval_seq j) < of_int max_wait_time + interval_seq (n - 1)"
    and b2: "n = 0 \<or> now w' - now w
               < of_int max_wait_time + interval_seq (n - 1) + cost e (length (sent w) + (n - 1))"
    and u: "(\<Sum>j<n. interval_seq j) \<le> max 0 (of_int max_wait_time + 60)"
    by blast
  have t': "now w' - now w = sum_list (map interval_seq [0..<n])
              + sum_list (map (cost e) [length (sent w)..<length (sent w')])"
    using t by (simp add: l sum_list_upt sum_list_upt_shift)
  have b1': "n = 0 \<or> sum_list (map interval_seq [0..<n])
               < of_int max_wait_time + interval_seq (n - 1)"
    using b1 by (simp add: sum_list_upt)
  have u': "sum_list (map interval_seq [0..<n]) \<le> max 0 (of_int max_wait_time + 60)"
    using u by (simp add: sum_list_upt)
  have b2': "n = 0 \<or> now w' - now w
               < of_int max_wait_time + interval_seq (n - 1) + cost e (length (sent w') - 1)"
  proof (cases "n = 0")
    case True
    then show ?thesis by simp
  next
    case False
    then have "length (sent w) + (n - 1) = length (sent w') - 1"
      using l by simp
    with b2 False show ?thesis by simp
  qed
  show ?thesis
    by (rule exI [of _ w'], rule exI [of _ n]) (intro conjI r s l t' b1' u' b2')
qed

theorem wait_for_completion_times_out_witness:
  "session ex_provider = Some [(''Content-Type'', ''application/json''),
                               (''Authorization'', ''Bearer secret'')]
   \<and> (\<forall>i. 0 \<le> cost busy_env i) \<and> (\<forall>i. still_running (reply busy_env i))
   \<and> (\<exists>w'. wait_for_completion busy_env ex_provider ''job1'' 20 w0 = Some (Inr False, w'))"
proof -
  have h1: "session ex_provider = Some [(''Content-Type'', ''application/json''),
                                        (''Authorization'', ''Bearer secret'')]"
    by (simp add: ex_provider_def initialize_def)
  have h2: "\<forall>i. 0 \<le> cost busy_env i" by (simp add: busy_env_def)
  have h3: "\<forall>i. still_running (reply busy_env i)"
    by (simp add: busy_env_def still_running_def get_def)
  from wait_for_completion_times_out [OF h1 h2 h3, of "''job1''" 20 w0]
  have "\<exists>w'. wait_for_completion busy_env ex_provider ''job1'' 20 w0 = Some (Inr False, w')"
    by blast
  with h1 h2 h3 show ?thesis by blast
qed

subsection \<open>What a returning wait has slept\<close>

lemma wait_loop_slept:
  "wait_loop e p jid mw st ci w = Some y \<Longrightarrow> ci = interval_seq k \<Longrightarrow>
   \<exists>n. slept (snd y) = slept w @ map interval_seq [k..<k + n]"
proof (induction arbitrary: k rule: wait_loop.raw_induct [rotated 1, consumes 1])
  case (1 wl e p jid mw st ci w y)
  note IH = "1.IH" and body = "1.hyps" and ci = "1.prems"
  define w1 where "w1 = snd (check_job_status e p jid w)"
  have s1: "slept w1 = slept w" by (simp add: w1_def check_job_status_slept)
  have "snd y = w \<or> snd y = w1 \<or> wl e p jid mw st (next_interval ci) (sleep ci w1) = Some y"
  proof (cases "now w - st < mw")
    case False
    with body have "Some (Inr False, w) = Some y" by simp
    then show ?thesis by auto
  next
    case True
    obtain r w1' where c: "check_job_status e p jid w = (r, w1')"
      by (cases "check_job_status e p jid w")
    have w1': "w1' = w1" by (simp add: w1_def c)
    show ?thesis
    proof (cases r)
      case (Inl err)
      with body True c have "Some (Inl err, w1') = Some y" by simp
      then show ?thesis using w1' by auto
    next
      case (Inr sd)
      with body True c
      have "Some y = Some (Inr False, w1') \<or> Some y = Some (Inr True, w1')
            \<or> wl e p jid mw st (next_interval ci) (sleep ci w1') = Some y"
        by (simp add: Let_def split: if_splits)
      then show ?thesis using w1' by auto
    qed
  qed
  then consider (stop) "snd y = w \<or> snd y = w1"
    | (again) "wl e p jid mw st (next_interval ci) (sleep ci w1) = Some y"
    by blast
  then show ?case
  proof cases
    case stop
    then have "slept (snd y) = slept w @ map interval_seq [k..<k + 0]"
      using s1 by auto
    then show ?thesis by blast
  next
    case again
    have "next_interval ci = interval_seq (Suc k)" by (simp add: ci interval_seq_Suc)
    from IH [OF again this] obtain n where
      "slept (snd y) = slept (sleep ci w1) @ map interval_seq [Suc k..<Suc k + n]" by blast
    then have "slept (snd y) = slept w @ interval_seq k # map interval_seq [Suc k..<Suc k + n]"
      by (simp add: sleep_def s1 ci)
    also have "\<dots> = slept w @ map interval_seq [k..<k + Suc n]"
      using upt_conv_Cons [of k "k + Suc n"] by simp
    finally show ?thesis by blast
  qed
qed

lemma wait_loop_sleeps:
  assumes "session p = Some hs" and "\<forall>i. 0 \<le> cost e i" and "\<forall>i. still_running (reply e i)"
  shows "\<exists>w' n. wait_for_completion e p jid max_wait_time w = Some (Inr False, w')
           \<and> slept w' = slept w @ map interval_seq [0..<n]
           \<and> of_int max_wait_time \<le> now w' - now w
           \<and> (\<forall>k<n. sum_list (map interval_seq [0..<k]) < of_int max_wait_time)"
proof -
  have "(10::rat) \<le> interval_seq 0" by (simp add: interval_seq_0)
  from wait_loop_never_terminal [OF assms this, of jid "of_int max_wait_time" "now w" w]
  obtain n where
    n: "wait_loop e p jid (of_int max_wait_time) (now w) (interval_seq 0) w
          = Some (Inr False, after_polls e p jid n (interval_seq 0) w)"
       "\<forall>k<n. now (after_polls e p jid k (interval_seq 0) w) - now w < of_int max_wait_time"
       "of_int max_wait_time \<le> now (after_polls e p jid n (interval_seq 0) w) - now w"
    by blast
  define w' where "w' = after_polls e p jid n (interval_seq 0) w"
  have r: "wait_for_completion e p jid max_wait_time w = Some (Inr False, w')"
    using n(1) by (simp add: wait_for_completion_def w'_def interval_seq_0)
  have s: "slept w' = slept w @ map interval_seq [0..<n]"
    using after_polls_slept [OF assms(1), of e jid n 0 w] by (simp add: w'_def)
  have d: "of_int max_wait_time \<le> now w' - now w"
    using n(3) by (simp add: w'_def)
  have b: "\<forall>k<n. sum_list (map interval_seq [0..<k]) < of_int max_wait_time"
  proof (intro allI impI)
    fix k assume "k < n"
    with n(2) have "now (after_polls e p jid k (interval_seq 0) w) - now w < of_int max_wait_time"
      by blast
    then have "(\<Sum>j<k. interval_seq j) + (\<Sum>j<k. cost e (length (sent w) + j))
                 < of_int max_wait_time"
      using after_polls_now [OF assms(1), of e jid k 0 w] by simp
    moreover have "0 \<le> (\<Sum>j<k. cost e (length (sent w) + j))"
      by (rule sum_costs_nonneg [OF assms(2)])
    ultimately show "sum_list (map interval_seq [0..<k]) < of_int max_wait_time"
      by (simp add: sum_list_upt)
  qed
  show ?thesis
    by (rule exI [of _ w'], rule exI [of _ n]) (intro conjI r s d b)
qed

text \<open>
  C6. The interval slept after the \<open>n\<close>-th poll, starting at 10 and growing by the factor 1.5
  up to the cap 60, is 10, 15, 22.5, 33.75, 50.625 and 60 from the sixth poll on; it never
  decreases and never exceeds 60. These are the intervals the loop sleeps. Whenever
  \<^verbatim>\<open>wait_for_completion\<close> returns, the sleeps it made are an initial segment of this
  sequence. And for a job that stays in a non-terminal status the wait does return, having
  slept the intervals of the sequence one after the other until the clock reached the
  time-out: the sleeps are the first \<open>n\<close> intervals, the clock has moved by the time-out at
  least, and the intervals before each of the \<open>n\<close> polls summed to less than the time-out.
\<close>

theorem poll_interval_sequence:
  "interval_seq 0 = 10 \<and> interval_seq 1 = 15 \<and> interval_seq 2 = 45 / 2
   \<and> interval_seq 3 = 135 / 4 \<and> interval_seq 4 = 405 / 8
   \<and> (\<forall>n. interval_seq (n + 5) = 60)
   \<and> (\<forall>n. interval_seq n \<le> interval_seq (Suc n))
   \<and> (\<forall>n. interval_seq n \<le> 60)
   \<and> (\<forall>e p jid max_wait_time w r w'.
         wait_for_completion e p jid max_wait_time w = Some (r, w') \<longrightarrow>
         (\<exists>n. slept w' = slept w @ map interval_seq [0..<n]))
   \<and> (\<forall>e p hs jid max_wait_time w.
         session p = Some hs \<and> (\<forall>i. 0 \<le> cost e i) \<and> (\<forall>i. still_running (reply e i)) \<longrightarrow>
         (\<exists>w' n. wait_for_completion e p jid max_wait_time w = Some (Inr False, w')
                 \<and> slept w' = slept w @ map interval_seq [0..<n]
                 \<and> of_int max_wait_time \<le> now w' - now w
                 \<and> (\<forall>k<n. sum_list (map interval_seq [0..<k]) < of_int max_wait_time)))"
proof -
  have link: "\<forall>e p jid max_wait_time w r w'.
         wait_for_completion e p jid max_wait_time w = Some (r, w') \<longrightarrow>
         (\<exists>n. slept w' = slept w @ map interval_seq [0..<n])"
  proof (intro allI impI)
    fix e p jid max_wait_time w r w'
    assume "wait_for_completion e p jid max_wait_time w = Some (r, w')"
    then have "wait_loop e p jid (of_int max_wait_time) (now w) 10 w = Some (r, w')"
      by (simp add: wait_for_completion_def)
    from wait_loop_slept [OF this, of 0]
    show "\<exists>n. slept w' = slept w @ map interval_seq [0..<n]"
      by (simp add: interval_seq_0)
  qed
  have runs: "\<forall>e p hs jid max_wait_time w.
         session p = Some hs \<and> (\<forall>i. 0 \<le> cost e i) \<and> (\<forall>i. still_running (reply e i)) \<longrightarrow>
         (\<exists>w' n. wait_for_completion e p jid max_wait_time w = Some (Inr False, w')
                 \<and> slept w' = slept w @ map interval_seq [0..<n]
                 \<and> of_int max_wait_time \<le> now w' - now w
                 \<and> (\<forall>k<n. sum_list (map interval_seq [0..<k]) < of_int max_wait_time))"
  proof (intro allI impI)
    fix e :: env and p :: provider and hs jid max_wait_time and w :: world
    assume a: "session p = Some hs \<and> (\<forall>i. 0 \<le> cost e i) \<and> (\<forall>i. still_running (reply e i))"
    then have a1: "session p = Some hs" and a2: "\<forall>i. 0 \<le> cost e i"
      and a3: "\<forall>i. still_running (reply e i)"
      by blast+
    show "\<exists>w' n. wait_for_completion e p jid max_wait_time w = Some (Inr False, w')
                 \<and> slept w' = slept w @ map interval_seq [0..<n]
                 \<and> of_int max_wait_time \<le> now w' - now w
                 \<and> (\<forall>k<n. sum_list (map interval_seq [0..<k]) < of_int max_wait_time)"
      by (rule wait_loop_sleeps [OF a1 a2 a3])
  qed
  have cap: "\<forall>n. interval_seq (n + 5) = 60" by (simp add: interval_seq_cap)
  have mono: "\<forall>n. interval_seq n \<le> interval_seq (Suc n)" by (simp add: interval_seq_mono)
  have bound: "\<forall>n. interval_seq n \<le> 60" by (simp add: interval_seq_range)
  show ?thesis
    by (intro conjI interval_seq_0 interval_seq_first cap mono bound link runs)
qed

text \<open>
  The sequence in two runs. A job reported \<^verbatim>\<open>Processing\<close> once and \<^verbatim>\<open>Completed\<close> after that
  (the first answer of this service carries no status): the wait returns \<^verbatim>\<open>True\<close> after the
  sleeps 10 and 15. A job that stays in \<^verbatim>\<open>Processing\<close>, half a second for every request and
  a time-out of 250 seconds: the wait returns \<^verbatim>\<open>False\<close> at 255.375 seconds after the seven
  sleeps 10, 15, 22.5, 33.75, 50.625, 60, 60, which are the first seven intervals.
\<close>

theorem poll_interval_sequence_witness:
  "timing (wait_for_completion done_env ex_provider ''job1'' 3600 w0)
     = Some (Inr True, 25, [10, 15])
   \<and> timing (wait_for_completion busy_env ex_provider ''job1'' 250 w0)
     = Some (Inr False, 2043 / 8, [10, 15, 45 / 2, 135 / 4, 405 / 8, 60, 60])
   \<and> map interval_seq [0..<7] = [10, 15, 45 / 2, 135 / 4, 405 / 8, 60, 60]"
proof -
  note seq = poll_interval_sequence
  have first: "timing (wait_for_completion done_env ex_provider ''job1'' 3600 w0)
                 = Some (Inr True, 25, [10, 15])"
    by code_simp
  have second: "timing (wait_for_completion busy_env ex_provider ''job1'' 250 w0)
                  = Some (Inr False, 2043 / 8, [10, 15, 45 / 2, 135 / 4, 405 / 8, 60, 60])"
    by code_simp
  have h1: "session ex_provider = Some [(''Content-Type'', ''application/json''),
                                        (''Authorization'', ''Bearer secret'')]"
    by (simp add: ex_provider_def initialize_def)
  have h2: "\<forall>i. 0 \<le> cost busy_env i" by (simp add: busy_env_def)
  have h3: "\<forall>i. still_running (reply busy_env i)"
    by (simp add: busy_env_def still_running_def get_def)
  have "\<forall>e p hs jid max_wait_time w.
         session p = Some hs \<and> (\<forall>i. 0 \<le> cost e i) \<and> (\<forall>i. still_running (reply e i)) \<longrightarrow>
         (\<exists>w' n. wait_for_completion e p jid max_wait_time w = Some (Inr False, w')
                 \<and> slept w' = slept w @ map interval_seq [0..<n]
                 \<and> of_int max_wait_time \<le> now w' - now w
                 \<and> (\<forall>k<n. sum_list (map interval_seq [0..<k]) < of_int max_wait_time))"
    by (rule seq [THEN conjunct2, THEN conjunct2, THEN conjunct2, THEN conjunct2,
              THEN conjunct2, THEN conjunct2, THEN conjunct2, THEN conjunct2, THEN conjunct2])
  with h1 h2 h3 obtain w' n where
    run: "wait_for_completion busy_env ex_provider ''job1'' 250 w0 = Some (Inr False, w')"
    and sl: "slept w' = slept w0 @ map interval_seq [0..<n]"
    by blast
  from second run have "slept w' = [10, 15, 45 / 2, 135 / 4, 405 / 8, 60, 60]"
    by (simp add: timing_def)
  with sl have m: "map interval_seq [0..<n] = [10, 15, 45 / 2, 135 / 4, 405 / 8, 60, 60]"
    by (simp add: w0_def)
  then have "length (map interval_seq [0..<n]) = 7" by simp
  then have "n = 7" by simp
  with m have "map interval_seq [0..<7] = [10, 15, 45 / 2, 135 / 4, 405 / 8, 60, 60]"
    by simp
  with first second show ?thesis by blast
qed

subsection \<open>A status check that fails\<close>

lemma wait_loop_failed_check_is_last:
  "wait_loop e p jid mw st ci w = Some y \<Longrightarrow> session p = Some hs \<Longrightarrow>
   length (sent w) \<le> i \<Longrightarrow> i < length (sent (snd y)) \<Longrightarrow> transport_failure (reply e i) \<Longrightarrow>
   fst y = Inr False \<and> length (sent (snd y)) = Suc i
     \<and> length (slept (snd y)) = length (slept w) + (i - length (sent w))"
proof (induction rule: wait_loop.raw_induct [rotated 1, consumes 1])
  case (1 wl e p jid mw st ci w y)
  note IH = "1.IH" and body = "1.hyps" and sess = "1.prems"(1) and prems = "1.prems"(2-)
  show ?case
  proof (cases "now w - st < mw")
    case False
    with body have "snd y = w" by auto
    with prems show ?thesis by simp
  next
    case True
    define w1 where "w1 = snd (check_job_status e p jid w)"
    have w1: "length (sent w1) = Suc (length (sent w))" "slept w1 = slept w"
      by (simp_all add: w1_def check_job_status_world [OF sess])
    show ?thesis
    proof (cases "still_running (reply e (length (sent w)))")
      case False
      with body True sess
      have "snd y = w1 \<and> (transport_failure (reply e (length (sent w))) \<longrightarrow> fst y = Inr False)"
        by (auto simp: w1_def check_job_status_def send_def still_running_def not_data_def
                       transport_failure_def Let_def
                 split: http_reply.splits if_splits)
      with prems w1 show ?thesis
        by (cases "i = length (sent w)") auto
    next
      case sr: True
      then have ne: "i \<noteq> length (sent w)"
        using prems(3)
        by (auto simp: still_running_def transport_failure_def split: http_reply.splits)
      from sr body True sess
      have "wl e p jid mw st (next_interval ci) (sleep ci w1) = Some y"
        by (auto simp: w1_def check_job_status_def send_def still_running_def not_data_def Let_def
                 split: http_reply.splits if_splits)
      from IH [OF this sess] prems ne w1 show ?thesis
        by (simp add: sleep_def)
    qed
  qed
qed

text \<open>
  C7. A status check that fails at the transport level (the request raises, or the answer's
  status code is not 200) ends the wait at once: at the head of the loop, with time left,
  such a check makes the loop return \<^verbatim>\<open>False\<close> in the world right after that one request,
  with nothing slept and nothing sent after it; and in every run of \<^verbatim>\<open>wait_for_completion\<close>
  that got as far as a failing check, that check is the last request of the run, the result
  is \<^verbatim>\<open>False\<close>, and the run slept once for each check before it and not after it.
\<close>

theorem status_check_failure_ends_wait:
  assumes "session p = Some hs" and "transport_failure (reply e i)"
  shows "(\<forall>w st ci mw. length (sent w) = i \<and> now w - st < mw \<longrightarrow>
            wait_loop e p jid mw st ci w
              = Some (Inr False,
                      w\<lparr>now := now w + cost e i,
                         sent := sent w @ [\<lparr>verb = GET,
                                             url = api_url p @ ''/api/flow/status/'' @ jid,
                                             headers = hs, data = None,
                                             req_timeout = timeout p\<rparr>]\<rparr>))
       \<and> (\<forall>max_wait_time w r w'.
            wait_for_completion e p jid max_wait_time w = Some (r, w')
            \<and> length (sent w) \<le> i \<and> i < length (sent w') \<longrightarrow>
            r = Inr False \<and> length (sent w') = Suc i
            \<and> length (slept w') = length (slept w) + (i - length (sent w)))"
proof -
  have one: "wait_loop e p jid mw st ci w
          = Some (Inr False,
                  w\<lparr>now := now w + cost e i,
                     sent := sent w @ [\<lparr>verb = GET, url = api_url p @ ''/api/flow/status/'' @ jid,
                                         headers = hs, data = None, req_timeout = timeout p\<rparr>]\<rparr>)"
    if a: "length (sent w) = i \<and> now w - st < mw" for w st ci mw
  proof -
    from a have tf: "transport_failure (reply e (length (sent w)))" using assms(2) by simp
    have lt: "now w - st < mw" using a by simp
    have len: "length (sent w) = i" using a by simp
    from wait_loop_transport_failure [OF assms(1) tf lt] len
    show ?thesis by (simp add: check_job_status_world [OF assms(1)])
  qed
  have run: "r = Inr False \<and> length (sent w') = Suc i
        \<and> length (slept w') = length (slept w) + (i - length (sent w))"
    if a: "wait_for_completion e p jid max_wait_time w = Some (r, w')
             \<and> length (sent w) \<le> i \<and> i < length (sent w')"
    for max_wait_time w r w'
  proof -
    from a have "wait_loop e p jid (of_int max_wait_time) (now w) 10 w = Some (r, w')"
      by (simp add: wait_for_completion_def)
    from wait_loop_failed_check_is_last [OF this assms(1), of i] a assms(2)
    show ?thesis by simp
  qed
  from one run show ?thesis by blast
qed

theorem status_check_failure_ends_wait_witness:
  "session ex_provider = Some [(''Content-Type'', ''application/json''),
                               (''Authorization'', ''Bearer secret'')]
   \<and> transport_failure (reply down_env 1)
   \<and> (\<exists>w'. wait_for_completion down_env ex_provider ''job1'' 3600 w0 = Some (Inr False, w')
            \<and> length (sent w') = 2 \<and> length (slept w') = 1)"
proof -
  have h1: "session ex_provider = Some [(''Content-Type'', ''application/json''),
                                        (''Authorization'', ''Bearer secret'')]"
    by (simp add: ex_provider_def initialize_def)
  have h2: "transport_failure (reply down_env 1)"
    by (simp add: down_env_def transport_failure_def)
  have "wait_for_completion down_env ex_provider ''job1'' 3600 w0 \<noteq> None" by code_simp
  then obtain r w' where
    run: "wait_for_completion down_env ex_provider ''job1'' 3600 w0 = Some (r, w')"
    by fastforce
  have len: "length (sent w0) \<le> 1" by (simp add: w0_def)
  have "length (sent (snd (the (wait_for_completion down_env ex_provider ''job1'' 3600 w0)))) = 2"
    by code_simp
  with run have far: "1 < length (sent w')" by simp
  from status_check_failure_ends_wait [OF h1 h2, of "''job1''"] run len far
  have "r = Inr False \<and> length (sent w') = Suc 1
        \<and> length (slept w') = length (slept w0) + (1 - length (sent w0))"
    by blast
  then have "r = Inr False \<and> length (sent w') = 2 \<and> length (slept w') = 1"
    by (simp add: w0_def)
  with run h1 h2 show ?thesis by blast
qed

subsection \<open>Listing\<close>

lemma list_loop_eq:
  "list_loop p v languages subtitles =
     subtitles @ map (\<lambda>l. \<lparr>sub_language = l, sub_video = v,
                              sub_workflow_id = Some (workflow_id p),
                              job_id = None, content = None\<rparr>) languages"
  by (induction languages arbitrary: subtitles) simp_all

text \<open>
  C10. \<^verbatim>\<open>list_subtitles\<close> returns one placeholder per requested language, in the order of
  the request, each with that language, the given video and the provider's workflow
  identifier; so the list is as long as the request, and empty only for an empty request.
  The world comes back as it was: no request is sent.
\<close>

theorem list_subtitles_one_per_language:
  "list_subtitles p v languages w
     = (map (\<lambda>l. \<lparr>sub_language = l, sub_video = v, sub_workflow_id = Some (workflow_id p),
                     job_id = None, content = None\<rparr>) languages, w)
   \<and> length (fst (list_subtitles p v languages w)) = length languages
   \<and> (fst (list_subtitles p v languages w) = []) = (languages = [])
   \<and> map sub_language (fst (list_subtitles p v languages w)) = languages
   \<and> sent (snd (list_subtitles p v languages w)) = sent w"
  by (simp add: list_subtitles_def list_loop_eq comp_def)

subsection \<open>Downloading\<close>

lemma download_subtitle_failure:
  assumes "submit_file_to_workflow e p (original_path (sub_video s)) w = (Inr (Some jid), w1)"
    and "jid \<noteq> []"
    and "wait_for_completion e p jid (timeout p) w1 = Some (Inr False, w2)"
  shows "download_subtitle e p s w = Some (Inr (s\<lparr>job_id := Some jid\<rparr>), w2)"
  using assms by (simp add: download_subtitle_def not_str_def)

lemma download_subtitle_not_submitted:
  assumes "submit_file_to_workflow e p (original_path (sub_video s)) w = (Inr None, w1)"
  shows "download_subtitle e p s w = Some (Inr s, w1)"
  using assms by (simp add: download_subtitle_def not_str_def)

text \<open>
  C9. When the file is submitted (the service answers with a non-empty job identifier) and
  the wait reports completion, \<^verbatim>\<open>download_subtitle\<close> ends normally and leaves the job
  identifier and the empty byte string as content in the subtitle: the content is set, and
  it is empty. (On the other paths the content is left as it was, see
  \<open>download_subtitle_failure\<close> and \<open>download_subtitle_not_submitted\<close>.)
\<close>

theorem download_subtitle_success_empty_content:
  assumes "submit_file_to_workflow e p (original_path (sub_video s)) w = (Inr (Some jid), w1)"
    and "jid \<noteq> []"
    and "wait_for_completion e p jid (timeout p) w1 = Some (Inr True, w2)"
  shows "download_subtitle e p s w = Some (Inr (s\<lparr>job_id := Some jid, content := Some []\<rparr>), w2)"
  using assms by (simp add: download_subtitle_def not_str_def)

theorem download_subtitle_success_empty_content_witness:
  "\<exists>w1 w2. submit_file_to_workflow done_env ex_provider (original_path (sub_video ex_subtitle)) w0
              = (Inr (Some ''job1''), w1)
     \<and> ''job1'' \<noteq> []
     \<and> wait_for_completion done_env ex_provider ''job1'' (timeout ex_provider) w1
         = Some (Inr True, w2)
     \<and> download_subtitle done_env ex_provider ex_subtitle w0
         = Some (Inr (ex_subtitle\<lparr>job_id := Some ''job1'', content := Some []\<rparr>), w2)"
proof -
  define w1 where
    "w1 = snd (submit_file_to_workflow done_env ex_provider
                 (original_path (sub_video ex_subtitle)) w0)"
  define w2 where
    "w2 = snd (the (wait_for_completion done_env ex_provider ''job1'' (timeout ex_provider) w1))"
  have "fst (submit_file_to_workflow done_env ex_provider
               (original_path (sub_video ex_subtitle)) w0) = Inr (Some ''job1'')"
    by code_simp
  then have h1: "submit_file_to_workflow done_env ex_provider
                   (original_path (sub_video ex_subtitle)) w0 = (Inr (Some ''job1''), w1)"
    by (simp add: w1_def prod_eq_iff)
  have h2: "''job1'' \<noteq> []" by simp
  have "wait_for_completion done_env ex_provider ''job1'' (timeout ex_provider)
          (snd (submit_file_to_workflow done_env ex_provider
                  (original_path (sub_video ex_subtitle)) w0)) \<noteq> None
        \<and> fst (the (wait_for_completion done_env ex_provider ''job1'' (timeout ex_provider)
          (snd (submit_file_to_workflow done_env ex_provider
                  (original_path (sub_video ex_subtitle)) w0)))) = Inr True"
    by code_simp
  then have h3: "wait_for_completion done_env ex_provider ''job1'' (timeout ex_provider) w1
                   = Some (Inr True, w2)"
    by (auto simp: w1_def w2_def prod_eq_iff)
  from download_subtitle_success_empty_content [OF h1 h2 h3] h1 h2 h3
  show ?thesis by blast
qed

subsection \<open>Construction\<close>

lemma init_sends_nothing:
  "sent (snd (init e api_url_arg api_key_arg workflow_id_arg timeout_arg loglevel w)) = sent w"
  by (simp add: init_def set_log_level_def split: option.splits)

lemma init_known_level:
  assumes "logging_attr e (upper l) = Some v"
  shows "init e api_url_arg api_key_arg workflow_id_arg timeout_arg (Some l) w =
           (if not_str api_url_arg then
              Inl (ConfigurationError ''FileFlows API URL must be provided'')
            else if not_str api_key_arg then
              Inl (ConfigurationError ''FileFlows API Key must be provided'')
            else if not_str workflow_id_arg then
              Inl (ConfigurationError ''FileFlows Workflow ID must be provided'')
            else if not_int timeout_arg then
              Inl (ConfigurationError ''FileFlows API timeout must be provided'')
            else
              Inr \<lparr>api_url = rstrip CHR ''/'' (the api_url_arg), api_key = the api_key_arg,
                    workflow_id = the workflow_id_arg, timeout = the timeout_arg,
                    session = None\<rparr>,
            w\<lparr>level := v\<rparr>)"
  using assms
  by (auto simp: init_def set_log_level_def not_str_def not_int_def split: option.splits)

text \<open>
  C8, at the arguments \<^verbatim>\<open>api_url='http://fileflows:5000/'\<close>, \<^verbatim>\<open>api_key='secret'\<close>,
  \<^verbatim>\<open>workflow_id='wf1'\<close>, \<^verbatim>\<open>timeout=30\<close> with \<^verbatim>\<open>loglevel\<close> left at its default \<^verbatim>\<open>None\<close>, and at
  the same arguments without the URL: \<^verbatim>\<open>set_log_level(None)\<close> raises \<^verbatim>\<open>AttributeError\<close>
  before any argument is looked at, so the first construction does not succeed and the
  second does not fail with \<^verbatim>\<open>ConfigurationError\<close>. With a level the \<^verbatim>\<open>logging\<close> module
  knows, both behave as required (\<open>init_known_level\<close>); no construction sends a request
  (\<open>init_sends_nothing\<close>).
\<close>

theorem init_default_loglevel_raises:
  "init busy_env (Some ''http://fileflows:5000/'') (Some ''secret'') (Some ''wf1'') (Some 30) None w0
     = (Inl AttributeError, w0)
   \<and> init busy_env None (Some ''secret'') (Some ''wf1'') (Some 30) None w0
     = (Inl AttributeError, w0)
   \<and> fst (init busy_env (Some ''http://fileflows:5000/'') (Some ''secret'') (Some ''wf1'') (Some 30)
            (Some ''info'') w0)
     = Inr \<lparr>api_url = ''http://fileflows:5000'', api_key = ''secret'', workflow_id = ''wf1'',
            timeout = 30, session = None\<rparr>"
  by code_simp

section \<open>Properties of the movie pass\<close>

subsection \<open>Strings, the two loops and the trace\<close>

lemma str_split_nonempty: "str_split c s \<noteq> []"
  by (induction s) (auto split: list.splits)

lemma str_split_no_sep: "c \<notin> set xs \<Longrightarrow> str_split c xs = [xs]"
  by (induction xs) auto

lemma str_split_first: "c \<notin> set xs \<Longrightarrow> str_split c (xs @ c # rest) = xs # str_split c rest"
  by (induction xs) (auto split: list.splits)

lemma endswith_append: "endswith (p @ suf) suf"
  by (simp add: endswith_def)

lemma endswith_last: "endswith s suf \<Longrightarrow> suf \<noteq> [] \<Longrightarrow> last s = last suf"
  by (metis append_take_drop_id endswith_def last_appendR)

lemma endswith_set: "endswith s suf \<Longrightarrow> set suf \<subseteq> set s"
  by (metis endswith_def set_drop_subset)

lemma to_request_hi:
  assumes "CHR '':'' \<notin> set xx"
  shows "to_request (xx @ '':hi'') = (xx, ''True'', ''False'')"
proof -
  have "\<not> endswith (xx @ '':hi'') '':forced''"
    using endswith_last [of "xx @ '':hi''" "'':forced''"] by auto
  moreover have "hd (str_split CHR '':'' (xx @ '':hi'')) = xx"
    using str_split_first [OF assms, of "''hi''"] by simp
  ultimately show ?thesis
    by (simp add: to_request_def endswith_append)
qed

lemma to_request_forced:
  assumes "CHR '':'' \<notin> set xx"
  shows "to_request (xx @ '':forced'') = (xx, ''False'', ''True'')"
proof -
  have "\<not> endswith (xx @ '':forced'') '':hi''"
    using endswith_last [of "xx @ '':forced''" "'':hi''"] by auto
  moreover have "hd (str_split CHR '':'' (xx @ '':forced'')) = xx"
    using str_split_first [OF assms, of "''forced''"] by simp
  ultimately show ?thesis
    by (simp add: to_request_def endswith_append)
qed

lemma to_request_bare:
  assumes "CHR '':'' \<notin> set xx"
  shows "to_request xx = (xx, ''False'', ''False'')"
proof -
  have "\<not> endswith xx '':hi''" "\<not> endswith xx '':forced''"
    using assms endswith_set [of xx "'':hi''"] endswith_set [of xx "'':forced''"] by auto
  then show ?thesis
    by (simp add: to_request_def str_split_no_sep [OF assms])
qed

lemma resolve_loop_all:
  "\<forall>i<length es. gp (c + i) \<noteq> [] \<Longrightarrow>
   resolve_loop gp es c acc = (acc @ map to_request (non_null es), c + length es)"
proof (induction es arbitrary: c acc)
  case Nil
  show ?case by simp
next
  case (Cons x es)
  have 0: "gp c \<noteq> []" using Cons.prems by force
  have "\<forall>i<length es. gp (Suc c + i) \<noteq> []" using Cons.prems by force
  from Cons.IH [OF this] 0 show ?case
    by (cases x) simp_all
qed

lemma resolve_loop_break:
  "k < length es \<Longrightarrow> \<forall>i<k. gp (c + i) \<noteq> [] \<Longrightarrow> gp (c + k) = [] \<Longrightarrow>
   resolve_loop gp es c acc = (acc @ map to_request (non_null (take k es)), c + Suc k)"
proof (induction es arbitrary: c acc k)
  case Nil
  then show ?case by simp
next
  case (Cons x es)
  show ?case
  proof (cases k)
    case 0
    with Cons.prems show ?thesis by simp
  next
    case (Suc j)
    have 0: "gp c \<noteq> []" using Cons.prems(2) Suc by force
    have a: "j < length es" using Cons.prems(1) Suc by simp
    have b: "\<forall>i<j. gp (Suc c + i) \<noteq> []" using Cons.prems(2) Suc by force
    have d: "gp (Suc c + j) = []" using Cons.prems(3) Suc by simp
    from Cons.IH [OF a b d] 0 Suc show ?thesis
      by (cases x) simp_all
  qed
qed

lemma history_entries_append:
  "history_entries (xs @ ys) = history_entries xs @ history_entries ys"
  by (induction xs rule: history_entries.induct) simp_all

lemma history_entries_process: "history_entries (process_results m mp no ys) = kept ys"
  by (induction m mp no ys rule: process_results.induct) simp_all

lemma history_entries_replicate: "history_entries (replicate n GetProviders) = []"
  by (induction n) simp_all

lemma searched_append: "searched (xs @ ys) = searched xs @ searched ys"
  by (induction xs rule: searched.induct) simp_all

lemma searched_process: "searched (process_results m mp no ys) = []"
  by (induction m mp no ys rule: process_results.induct) simp_all

lemma searched_replicate: "searched (replicate n GetProviders) = []"
  by (induction n) simp_all

lemma registry_calls_process: "registry_calls (process_results m mp no ys) = 0"
  by (induction m mp no ys rule: process_results.induct) (simp_all add: registry_calls_def)

lemma registry_calls_append: "registry_calls (xs @ ys) = registry_calls xs + registry_calls ys"
  by (simp add: registry_calls_def)

lemma registry_calls_Nil: "registry_calls [] = 0"
  by (simp add: registry_calls_def)

lemma registry_calls_Cons:
  "registry_calls (ev # es) = (if ev = GetProviders then 1 else 0) + registry_calls es"
  by (simp add: registry_calls_def)

lemma registry_calls_replicate: "registry_calls (replicate n GetProviders) = n"
  by (induction n) (simp_all add: registry_calls_def)

lemma process_results_kept:
  "process_results m mp no ys =
     concat (map (\<lambda>r. [StoreSubtitles (path m) mp, HistoryLog 1 no r, Notify no (message r)])
                 (kept ys))"
  by (induction m mp no ys rule: process_results.induct) simp_all

lemma movies_download_subtitles_run:
  assumes "first_movie e no = Some m" and "exists_path e (path_replace_movie e (path m))"
    and "literal_eval e (missing_subtitles m) = Inr decoded"
    and "resolve_loop (get_providers e) decoded 0 [] = (languages, calls)"
  shows "movies_download_subtitles e no =
           (Inr PyNone,
            replicate calls GetProviders
            @ [ShowProgress no ''Searching missing subtitles...'' (title m) 0 (length decoded),
               GenerateSubtitles (path_replace_movie e (path m)) languages (audio_language_of e m)
                 (str_opt (sceneName m)) (title m) ''movie'' (profileId m) True]
            @ process_results m (path_replace_movie e (path m)) no
                (search e m (path_replace_movie e (path m)) languages)
            @ [HideProgress no])"
  using assms by (simp add: movies_download_subtitles_def Let_def)

lemma run_registry_calls:
  "registry_calls (replicate calls GetProviders @ [ShowProgress a b c d n, GenerateSubtitles mp ls al sn t k pid f]
                   @ process_results m mp' no ys @ [HideProgress no']) = calls"
  by (simp add: registry_calls_append registry_calls_replicate registry_calls_process
        registry_calls_Cons registry_calls_Nil)

lemma run_searched:
  "searched (replicate calls GetProviders @ [ShowProgress a b c d n, GenerateSubtitles mp ls al sn t k pid f]
             @ process_results m mp' no ys @ [HideProgress no']) = [ls]"
  by (simp add: searched_append searched_replicate searched_process)

lemma run_history_entries:
  "history_entries (replicate calls GetProviders @ [ShowProgress a b c d n, GenerateSubtitles mp ls al sn t k pid f]
                    @ process_results m mp' no ys @ [HideProgress no']) = kept ys"
  by (simp add: history_entries_append history_entries_replicate history_entries_process)

subsection \<open>The resolver\<close>

text \<open>
  C2. An entry \<^verbatim>\<open>xx:hi\<close> (with \<^verbatim>\<open>xx\<close> free of colons) becomes the request for \<^verbatim>\<open>xx\<close> with the
  hearing-impaired flag set and the forced flag not set, \<^verbatim>\<open>xx:forced\<close> the one with the flags
  the other way round, a bare \<^verbatim>\<open>xx\<close> the one with neither flag (the code writes the flags as
  the strings \<^verbatim>\<open>"True"\<close> and \<^verbatim>\<open>"False"\<close>); and while the registry has providers, the list built
  holds the requests of the entries that are not \<^verbatim>\<open>None\<close>, in the order of the entries.
\<close>

theorem resolver_decodes_entries:
  assumes "CHR '':'' \<notin> set xx" and "\<forall>i<length entries. gp i \<noteq> []"
  shows "to_request (xx @ '':hi'') = (xx, ''True'', ''False'')
       \<and> to_request (xx @ '':forced'') = (xx, ''False'', ''True'')
       \<and> to_request xx = (xx, ''False'', ''False'')
       \<and> resolve_loop gp entries 0 [] = (map to_request (non_null entries), length entries)"
  using to_request_hi [OF assms(1)] to_request_forced [OF assms(1)] to_request_bare [OF assms(1)]
    resolve_loop_all [of entries gp 0 "[]"] assms(2)
  by simp

theorem resolver_decodes_entries_witness:
  "to_request ''en:hi'' = (''en'', ''True'', ''False'')
   \<and> to_request ''en:forced'' = (''en'', ''False'', ''True'')
   \<and> to_request ''en'' = (''en'', ''False'', ''False'')
   \<and> resolve_loop (get_providers open_env) [Some ''en:hi'', None, Some ''fr:forced'', Some ''de''] 0 []
       = ([(''en'', ''True'', ''False''), (''fr'', ''False'', ''True''), (''de'', ''False'', ''False'')], 4)"
proof -
  have h1: "CHR '':'' \<notin> set ''en''" by simp
  have h2: "\<forall>i<length [Some ''en:hi'', None, Some ''fr:forced'', Some ''de''].
              get_providers open_env i \<noteq> []"
    by (simp add: open_env_def ex_menv_def)
  have v: "map to_request (non_null [Some ''en:hi'', None, Some ''fr:forced'', Some ''de''])
             = [(''en'', ''True'', ''False''), (''fr'', ''False'', ''True''),
                (''de'', ''False'', ''False'')]"
    by code_simp
  from resolver_decodes_entries [OF h1 h2] v show ?thesis by simp
qed

subsection \<open>An empty registry\<close>

text \<open>
  C1 as stated fails: in the pass over a movie with the entries \<^verbatim>\<open>en\<close> and \<^verbatim>\<open>fr:hi\<close>, with a
  registry that has a provider at the first consultation and none at the second, the result
  for \<^verbatim>\<open>en\<close> is obtained and logged, and the call returns \<^verbatim>\<open>None\<close>, not a list with that
  result.
\<close>

theorem throttled_pass_returns_no_results:
  "get_providers throttled_env 0 \<noteq> [] \<and> get_providers throttled_env 1 = []
   \<and> history_entries (snd (movies_download_subtitles throttled_env 7))
       = [\<lparr>message = ''en subtitles downloaded''\<rparr>]
   \<and> fst (movies_download_subtitles throttled_env 7)
       \<noteq> Inr (PyList [\<lparr>message = ''en subtitles downloaded''\<rparr>])"
  by code_simp

text \<open>
  C1, amended. For a stored state that decodes to the entries \<open>decoded\<close>: if the registry has
  providers at the consultations for the entries before index \<open>k\<close> and none at the
  consultation for entry \<open>k\<close>, the pass consults the registry \<open>k + 1\<close> times and no more; it
  searches once, for exactly the requests built from the entries before \<open>k\<close> (those that are
  not \<^verbatim>\<open>None\<close>, in order), which the early exit keeps; the results handed to the history are
  the results that search yields for these requests; and the call returns \<^verbatim>\<open>None\<close>.
\<close>

theorem throttled_registry_stops_resolution:
  assumes "first_movie e no = Some m" and "exists_path e (path_replace_movie e (path m))"
    and "literal_eval e (missing_subtitles m) = Inr decoded"
    and "k < length decoded"
    and "\<forall>i<k. get_providers e i \<noteq> []" and "get_providers e k = []"
  shows "registry_calls (snd (movies_download_subtitles e no)) = Suc k
       \<and> searched (snd (movies_download_subtitles e no))
           = [map to_request (non_null (take k decoded))]
       \<and> history_entries (snd (movies_download_subtitles e no))
           = kept (search e m (path_replace_movie e (path m))
                     (map to_request (non_null (take k decoded))))
       \<and> fst (movies_download_subtitles e no) = Inr PyNone"
proof -
  have "resolve_loop (get_providers e) decoded 0 []
          = (map to_request (non_null (take k decoded)), Suc k)"
    using resolve_loop_break [of k decoded "get_providers e" 0 "[]"] assms(4-6)
    by simp
  from movies_download_subtitles_run [OF assms(1-3) this] show ?thesis
    by (simp only: fst_conv snd_conv run_registry_calls run_searched run_history_entries simp_thms)
qed

theorem throttled_registry_stops_resolution_witness:
  "registry_calls (snd (movies_download_subtitles throttled_env 7)) = 2
   \<and> searched (snd (movies_download_subtitles throttled_env 7)) = [[(''en'', ''False'', ''False'')]]
   \<and> history_entries (snd (movies_download_subtitles throttled_env 7))
       = [\<lparr>message = ''en subtitles downloaded''\<rparr>]
   \<and> fst (movies_download_subtitles throttled_env 7) = Inr PyNone"
proof -
  have h1: "first_movie throttled_env 7 = Some ex_movie"
    by (simp add: throttled_env_def ex_menv_def)
  have h2: "exists_path throttled_env (path_replace_movie throttled_env (path ex_movie))"
    by (simp add: throttled_env_def ex_menv_def)
  have h3: "literal_eval throttled_env (missing_subtitles ex_movie)
              = Inr [Some ''en'', Some ''fr:hi'']"
    by code_simp
  have h4: "1 < length [Some ''en'', Some ''fr:hi'']"
    by simp
  have h5: "\<forall>i<1. get_providers throttled_env i \<noteq> []"
    by (simp add: throttled_env_def ex_menv_def)
  have h6: "get_providers throttled_env 1 = []"
    by (simp add: throttled_env_def ex_menv_def)
  have v1: "map to_request (non_null (take 1 [Some ''en'', Some ''fr:hi'']))
              = [(''en'', ''False'', ''False'')]"
    by code_simp
  have v2: "kept (search throttled_env ex_movie (path_replace_movie throttled_env (path ex_movie))
              [(''en'', ''False'', ''False'')]) = [\<lparr>message = ''en subtitles downloaded''\<rparr>]"
    by code_simp
  from throttled_registry_stops_resolution [OF h1 h2 h3 h4 h5 h6] v1 v2 show ?thesis
    by simp
qed

subsection \<open>What the call gives its caller\<close>

text \<open>
  C3 as stated fails: the pass over the same movie with a registry that always has a provider
  obtains and logs two results and returns \<^verbatim>\<open>None\<close>, not the list of them; and for an item
  that is not in the database it returns \<^verbatim>\<open>None\<close>, not the empty list.
\<close>

theorem pass_does_not_return_results:
  "history_entries (snd (movies_download_subtitles open_env 7))
     = [\<lparr>message = ''en subtitles downloaded''\<rparr>, \<lparr>message = ''fr subtitles downloaded''\<rparr>]
   \<and> fst (movies_download_subtitles open_env 7)
       \<noteq> Inr (PyList (history_entries (snd (movies_download_subtitles open_env 7))))
   \<and> fst (movies_download_subtitles open_env 8) \<noteq> Inr (PyList [])"
  by code_simp

text \<open>
  C3, amended. For an item that is found, whose file is on disk and whose stored state
  decodes, the call returns \<^verbatim>\<open>None\<close>; the results of the pass are not returned but handed
  on: the calls made are the registry consultations, the start of the progress, the search,
  then for each result kept (in the order yielded) the store, the history entry and the
  notification, and the end of the progress.
\<close>

theorem pass_returns_none_and_hands_results_on:
  assumes "first_movie e no = Some m" and "exists_path e (path_replace_movie e (path m))"
    and "literal_eval e (missing_subtitles m) = Inr decoded"
    and "resolve_loop (get_providers e) decoded 0 [] = (languages, calls)"
  shows "movies_download_subtitles e no =
           (Inr PyNone,
            replicate calls GetProviders
            @ [ShowProgress no ''Searching missing subtitles...'' (title m) 0 (length decoded),
               GenerateSubtitles (path_replace_movie e (path m)) languages (audio_language_of e m)
                 (str_opt (sceneName m)) (title m) ''movie'' (profileId m) True]
            @ concat (map (\<lambda>r. [StoreSubtitles (path m) (path_replace_movie e (path m)),
                                   HistoryLog 1 no r, Notify no (message r)])
                          (kept (search e m (path_replace_movie e (path m)) languages)))
            @ [HideProgress no])"
  using movies_download_subtitles_run [OF assms] by (simp only: process_results_kept)

theorem pass_returns_none_and_hands_results_on_witness:
  "fst (movies_download_subtitles open_env 7) = Inr PyNone
   \<and> history_entries (snd (movies_download_subtitles open_env 7))
       = [\<lparr>message = ''en subtitles downloaded''\<rparr>, \<lparr>message = ''fr subtitles downloaded''\<rparr>]"
proof -
  have h1: "first_movie open_env 7 = Some ex_movie"
    by (simp add: open_env_def ex_menv_def)
  have h2: "exists_path open_env (path_replace_movie open_env (path ex_movie))"
    by (simp add: open_env_def ex_menv_def)
  have h3: "literal_eval open_env (missing_subtitles ex_movie) = Inr [Some ''en'', Some ''fr:hi'']"
    by code_simp
  have h4: "resolve_loop (get_providers open_env) [Some ''en'', Some ''fr:hi''] 0 []
              = ([(''en'', ''False'', ''False''), (''fr'', ''True'', ''False'')], 2)"
    by code_simp
  have v: "kept (search open_env ex_movie (path_replace_movie open_env (path ex_movie))
             [(''en'', ''False'', ''False''), (''fr'', ''True'', ''False'')])
           = [\<lparr>message = ''en subtitles downloaded''\<rparr>, \<lparr>message = ''fr subtitles downloaded''\<rparr>]"
    by code_simp
  from pass_returns_none_and_hands_results_on [OF h1 h2 h3 h4] v show ?thesis
    by (simp add: history_entries_append history_entries_replicate)
qed

subsection \<open>Exceptions\<close>

text \<open>
  C4 as stated fails: for a movie that is in the database and whose file is not on disk, the
  call raises \<^verbatim>\<open>OSError\<close> to its caller.
\<close>

theorem missing_file_raises:
  "first_movie missing_file_env 7 = Some ex_movie
   \<and> \<not> exists_path missing_file_env (path_replace_movie missing_file_env (path ex_movie))
   \<and> movies_download_subtitles missing_file_env 7 = (Inl OSError, [])"
  by code_simp

lemma empty_state_raises:
  "movies_download_subtitles corrupt_env 7 = (Inl SyntaxError, [])"
  by code_simp

text \<open>
  C4, amended. An item that is not in the database makes the call return at once, without an
  exception and without any call to the collaborators. An item whose mapped path does not
  exist makes the call raise \<^verbatim>\<open>OSError\<close> to its caller, and an item whose stored state does
  not decode makes it raise the decoder's exception (\<^verbatim>\<open>SyntaxError\<close>, \<^verbatim>\<open>ValueError\<close>) to its
  caller, both before the registry is consulted and before any progress event. With a state
  that decodes, and collaborators that do not raise themselves, the call returns normally: an
  empty registry ends the first loop and a result that is \<^verbatim>\<open>None\<close> or empty is passed over.
\<close>

theorem pass_outcomes:
  "(case first_movie e no of
      None \<Rightarrow> movies_download_subtitles e no = (Inr PyNone, [])
    | Some m \<Rightarrow>
        if exists_path e (path_replace_movie e (path m))
        then (case literal_eval e (missing_subtitles m) of
                Inl err \<Rightarrow> movies_download_subtitles e no = (Inl err, [])
              | Inr decoded \<Rightarrow> fst (movies_download_subtitles e no) = Inr PyNone)
        else movies_download_subtitles e no = (Inl OSError, []))"
  by (simp add: movies_download_subtitles_def Let_def split: option.splits prod.splits sum.splits)

end
